theory Spec2Isabelle
  imports Complex_Main "HOL-Library.Product_Lexorder" "HOL-Library.AList"
begin

section \<open>Text primitives of the Python runtime\<close>

text \<open>
  Python strings are modelled as \<^typ>\<open>string\<close>; a \<^typ>\<open>char\<close> stands for a code point
  below 256. On that range \<^verbatim>\<open>str.isspace\<close>, \<^verbatim>\<open>str.strip()\<close> and the regular
  expression class \<^verbatim>\<open>\s\<close> agree on the twelve characters of \<open>is_space\<close>, the class
  \<^verbatim>\<open>\d\<close> is the ten ASCII digits, and only \<^verbatim>\<open>x\<close> and \<^verbatim>\<open>X\<close> match \<^verbatim>\<open>X\<close> under
  \<^verbatim>\<open>re.IGNORECASE\<close>.
\<close>

definition is_space :: "char \<Rightarrow> bool" where
  "is_space c = ((of_char c :: nat) \<in> {9, 10, 11, 12, 13, 28, 29, 30, 31, 32, 133, 160})"

definition is_digit :: "char \<Rightarrow> bool" where
  "is_digit c = (c \<in> set ''0123456789'')"

definition digit_val :: "char \<Rightarrow> int" where
  "digit_val c = int (of_char c) - 48"

text \<open>
  \<^verbatim>\<open>str.upper\<close> and \<^verbatim>\<open>str.lower\<close>, on the ASCII letters. (Python also changes some
  letters above 127; none of them becomes \<^verbatim>\<open>X\<close> under \<^verbatim>\<open>upper\<close> or an ASCII character
  under \<^verbatim>\<open>lower\<close>, and the program compares the results only with \<^verbatim>\<open>'X'\<close> and with an ASCII
  phrase, so those comparisons come out the same.)
\<close>

definition upper_char :: "char \<Rightarrow> char" where
  "upper_char c =
     (case map_of (zip ''abcdefghijklmnopqrstuvwxyz'' ''ABCDEFGHIJKLMNOPQRSTUVWXYZ'') c of
        Some u \<Rightarrow> u
      | None \<Rightarrow> c)"


text \<open>\<^verbatim>\<open>s.strip()\<close>: whitespace removed at both ends.\<close>

definition py_strip :: "string \<Rightarrow> string" where
  "py_strip s = rev (dropWhile is_space (rev (dropWhile is_space s)))"

text \<open>\<^verbatim>\<open>s.replace('**', '')\<close>: occurrences are removed left to right, without overlap.\<close>

fun replace_stars :: "string \<Rightarrow> string" where
  "replace_stars (a # b # cs) =
     (if a = CHR ''*'' \<and> b = CHR ''*'' then replace_stars cs else a # replace_stars (b # cs))"
| "replace_stars cs = cs"



subsection \<open>\<^verbatim>\<open>int(s)\<close> on a string\<close>

text \<open>
  \<^verbatim>\<open>int(s)\<close> trims whitespace, reads an optional sign and then decimal digits, where
  single underscores may stand between digits; anything else raises \<^verbatim>\<open>ValueError\<close>
  (the value \<open>None\<close>). The whitespace it trims is that of \<open>is_space\<close> without the four
  separators 28 to 31.
\<close>

definition int_space :: "char \<Rightarrow> bool" where
  "int_space c = ((of_char c :: nat) \<in> {9, 10, 11, 12, 13, 32, 133, 160})"

fun digit_groups :: "string \<Rightarrow> bool" where
  "digit_groups [] = False"
| "digit_groups [c] = is_digit c"
| "digit_groups (c # d # cs) =
     (is_digit c \<and> (if d = CHR ''_'' then digit_groups cs else digit_groups (d # cs)))"

definition int_of_digits :: "string \<Rightarrow> int" where
  "int_of_digits ds = foldl (\<lambda>acc c. 10 * acc + digit_val c) 0 ds"

definition py_int :: "string \<Rightarrow> int option" where
  "py_int s =
     (let t = rev (dropWhile int_space (rev (dropWhile int_space s)));
          neg = (t \<noteq> [] \<and> hd t = CHR ''-'');
          body = (if t \<noteq> [] \<and> (hd t = CHR ''-'' \<or> hd t = CHR ''+'') then tl t else t)
      in if digit_groups body
         then Some ((if neg then - 1 else 1) * int_of_digits (filter (\<lambda>c. c \<noteq> CHR ''_'') body))
         else None)"

section \<open>Scoring\<close>

text \<open>
  \<^verbatim>\<open>calculate_score(result_str)\<close>: 0 when \<^verbatim>\<open>result_str.upper() == 'X'\<close>, otherwise
  \<^verbatim>\<open>max(0, 7 - int(result_str))\<close>, and 0 when \<^verbatim>\<open>int\<close> raises \<^verbatim>\<open>ValueError\<close>.
\<close>

definition calculate_score :: "string \<Rightarrow> int" where
  "calculate_score result_str =
     (if map upper_char result_str = ''X'' then 0
      else (case py_int result_str of
              Some guesses \<Rightarrow> max 0 (7 - guesses)
            | None \<Rightarrow> 0))"

section \<open>Parsing a result message\<close>

text \<open>
  \<^verbatim>\<open>WORDLE_SCORE_PATTERN = (\d|X)/6:\s*(.*?)(?=(\d|X)/6:|$)\<close>, compiled with
  \<^verbatim>\<open>re.IGNORECASE | re.DOTALL\<close>. \<open>score_token_at s\<close> says that \<^verbatim>\<open>(\d|X)/6:\<close> matches at
  the start of \<open>s\<close>.
\<close>

fun score_token_at :: "string \<Rightarrow> bool" where
  "score_token_at (c # s1 # s2 # s3 # rest) =
     ((is_digit c \<or> c = CHR ''X'' \<or> c = CHR ''x'') \<and>
      s1 = CHR ''/'' \<and> s2 = CHR ''6'' \<and> s3 = CHR '':'')"
| "score_token_at s = False"

text \<open>
  The lookahead \<^verbatim>\<open>(?=(\d|X)/6:|$)\<close>: the next score token, or \<^verbatim>\<open>$\<close>, which without
  \<^verbatim>\<open>re.MULTILINE\<close> holds at the end of the text and just before a final newline.
\<close>

definition lookahead :: "string \<Rightarrow> bool" where
  "lookahead s = (score_token_at s \<or> s = [] \<or> s = [CHR 0x0A])"

text \<open>
  The lazy group \<^verbatim>\<open>(.*?)\<close> takes the fewest characters (any character, with
  \<^verbatim>\<open>re.DOTALL\<close>) after which the lookahead holds.
\<close>

fun lazy_dot_star :: "string \<Rightarrow> string" where
  "lazy_dot_star [] = []"
| "lazy_dot_star (c # cs) = (if lookahead (c # cs) then [] else c # lazy_dot_star cs)"

text \<open>
  \<^verbatim>\<open>WORDLE_SCORE_PATTERN.findall(content_to_parse)\<close>: the matches from left to right,
  each search starting where the previous match ended. A match is the score character, the
  greedy run \<^verbatim>\<open>\s*\<close>, and the lazy group. The result keeps groups 1 and 2 of every
  match (group 3, the character seen by the lookahead, is not used by the caller).
\<close>

function findall_score :: "string \<Rightarrow> (char \<times> string) list" where
  "findall_score [] = []"
| "findall_score (c # cs) =
     (if score_token_at (c # cs)
      then (let after_spaces = dropWhile is_space (drop 3 cs);
                mention_segment = lazy_dot_star after_spaces
            in (c, mention_segment) # findall_score (drop (length mention_segment) after_spaces))
      else findall_score cs)"
  by pat_completeness auto
termination
proof (relation "measure length")
  show "wf (measure length)" by simp
next
  fix c :: char and cs after_spaces mention_segment :: string
  assume "after_spaces = dropWhile is_space (drop 3 cs)"
  then have "length (drop (length mention_segment) after_spaces) \<le> length cs"
    using length_dropWhile_le [of is_space "drop 3 cs"] by simp
  then show "(drop (length mention_segment) after_spaces, c # cs) \<in> measure length"
    by simp
next
  fix c :: char and cs :: string
  show "(cs, c # cs) \<in> measure length" by simp
qed

text \<open>
  \<^verbatim>\<open>re.findall(r'<@!?(\d+)>', mention_segment)\<close>. \<open>mention_at s\<close> is the match at the start
  of \<open>s\<close>, if there is one: the digits of group 1 and the text after the closing bracket.
\<close>

fun mention_at :: "string \<Rightarrow> (string \<times> string) option" where
  "mention_at (a # b # cs) =
     (if a = CHR ''<'' \<and> b = CHR ''@''
      then (let ds0 = (if cs \<noteq> [] \<and> hd cs = CHR ''!'' then tl cs else cs);
                ds = takeWhile is_digit ds0;
                rest = dropWhile is_digit ds0
            in if ds \<noteq> [] \<and> rest \<noteq> [] \<and> hd rest = CHR ''>'' then Some (ds, tl rest) else None)
      else None)"
| "mention_at s = None"

lemma mention_at_shorter:
  assumes "mention_at s = Some (ds, rest)"
  shows "length rest < length s"
proof (cases s rule: mention_at.cases)
  case (1 a b cs)
  define ds0 where "ds0 = (if cs \<noteq> [] \<and> hd cs = CHR ''!'' then tl cs else cs)"
  from assms 1 have "rest = tl (dropWhile is_digit ds0)"
    by (auto simp: ds0_def Let_def split: if_splits)
  moreover have "length (dropWhile is_digit ds0) \<le> length ds0"
    by (rule length_dropWhile_le)
  moreover have "length ds0 \<le> length cs"
    unfolding ds0_def by simp
  ultimately show ?thesis
    using 1 by simp
qed (use assms in simp_all)

function find_mentions :: "string \<Rightarrow> string list" where
  "find_mentions [] = []"
| "find_mentions (c # cs) =
     (case mention_at (c # cs) of
        Some (user_id, rest) \<Rightarrow> user_id # find_mentions rest
      | None \<Rightarrow> find_mentions cs)"
  by pat_completeness auto
termination
  by (relation "measure length") (auto dest: mention_at_shorter)

section \<open>The leaderboard and the ingestion of one message\<close>

text \<open>
  A leaderboard is the Python dictionary from user ids (the digit strings of the mentions)
  to records with the keys \<^verbatim>\<open>username\<close>, \<^verbatim>\<open>total_score\<close> and \<^verbatim>\<open>games_played\<close>. A
  dictionary keeps its keys in insertion order, and \<^verbatim>\<open>sorted\<close> later depends on that order,
  so it is an association list: \<^const>\<open>AList.update\<close> overwrites the value of a key in place
  and appends a new key at the end, as the assignment \<^verbatim>\<open>d[k] = v\<close> does.
\<close>

record player_record =
  username :: string
  total_score :: int
  games_played :: int

type_synonym leaderboard = "(string \<times> player_record) list"

record message =
  message_id :: int
  author_id :: int
  content :: string

definition WORDLE_BOT_ID :: int where
  "WORDLE_BOT_ID = 1211781489931452447"

text \<open>
  \<^verbatim>\<open>client.fetch_user\<close> belongs to the chat library: it returns a user, raises
  \<^verbatim>\<open>discord.NotFound\<close>, or raises another exception. All three are caught by the loop.
\<close>

datatype fetch_outcome = Fetched string | NotFound | FetchError

definition resolve_username :: "(int \<Rightarrow> fetch_outcome) \<Rightarrow> string \<Rightarrow> string" where
  "resolve_username fetch_user user_id =
     (case fetch_user (int_of_digits user_id) of
        Fetched name \<Rightarrow> name
      | NotFound \<Rightarrow> ''User '' @ user_id @ '' (Not Found)''
      | FetchError \<Rightarrow> ''User '' @ user_id @ '' (Error)'')"

text \<open>The body of the loop over \<^verbatim>\<open>user_mentions\<close>, on the dictionary.\<close>

definition log_score :: "(int \<Rightarrow> fetch_outcome) \<Rightarrow> int \<Rightarrow> string \<Rightarrow> leaderboard \<Rightarrow> leaderboard" where
  "log_score fetch_user points user_id leaderboard_data =
     (let name = resolve_username fetch_user user_id;
          entry = (case map_of leaderboard_data user_id of
                     None \<Rightarrow> \<lparr>username = name, total_score = 0, games_played = 0\<rparr>
                   | Some r \<Rightarrow> r)
      in AList.update user_id
           \<lparr>username = name,
            total_score = total_score entry + points,
            games_played = games_played entry + 1\<rparr>
           leaderboard_data)"

text \<open>The body of the loop over \<^verbatim>\<open>score_matches\<close>; the state is the dictionary and \<^verbatim>\<open>scores_logged\<close>.\<close>

definition process_match ::
  "(int \<Rightarrow> fetch_outcome) \<Rightarrow> char \<times> string \<Rightarrow> leaderboard \<times> nat \<Rightarrow> leaderboard \<times> nat" where
  "process_match fetch_user match st =
     (let score_char = map upper_char [fst match];
          mention_segment = snd match;
          points = calculate_score score_char;
          user_mentions = find_mentions mention_segment
      in fold (\<lambda>user_id (leaderboard_data, scores_logged).
                 (log_score fetch_user points user_id leaderboard_data, scores_logged + 1))
           user_mentions st)"

text \<open>The cleaning step \<^verbatim>\<open>content_to_parse.replace('**', '').strip()\<close>.\<close>

definition clean_content :: "string \<Rightarrow> string" where
  "clean_content c = py_strip (replace_stars c)"

text \<open>
  \<^verbatim>\<open>process_wordle_message\<close> mutates the dictionary it is given and returns a boolean; the
  model returns the dictionary after the call together with that boolean.
\<close>

definition process_wordle_message ::
  "(int \<Rightarrow> fetch_outcome) \<Rightarrow> message \<Rightarrow> leaderboard \<Rightarrow> leaderboard \<times> bool" where
  "process_wordle_message fetch_user msg leaderboard_data =
     (if author_id msg \<noteq> WORDLE_BOT_ID then (leaderboard_data, False)
      else if content msg = [] then (leaderboard_data, False)
      else (let content_to_parse = clean_content (content msg);
                score_matches = findall_score content_to_parse
            in if score_matches = [] then (leaderboard_data, False)
               else (let (data, scores_logged) =
                           fold (process_match fetch_user) score_matches (leaderboard_data, 0)
                     in (data, scores_logged > 0))))"

section \<open>Persistence\<close>



section \<open>Ranking\<close>

text \<open>
  \<^verbatim>\<open>display_wordle_leaderboard\<close> sorts the items of the dictionary with the key
  \<^verbatim>\<open>(total_score, 7.0 - total_score / games_played)\<close> (\<^verbatim>\<open>7.0\<close> when \<^verbatim>\<open>games_played\<close> is
  not positive) and \<^verbatim>\<open>reverse=True\<close>, then renders one line per sorted item. Tuples
  compare lexicographically. The quotient is an exact rational here; the text of a line
  (emoji, two-decimal formatting) is left as data. A record always carries its three keys,
  so the default of \<^verbatim>\<open>data.get('username', ...)\<close> is never taken.
\<close>

definition board_key :: "string \<times> player_record \<Rightarrow> int \<times> rat" where
  "board_key item =
     (total_score (snd item),
      if games_played (snd item) > 0
      then 7 - of_int (total_score (snd item)) / of_int (games_played (snd item))
      else 7)"

text \<open>
  \<^verbatim>\<open>sorted(..., reverse=True)\<close> is a stable sort of the reversed list, reversed again:
  items with equal keys keep their order.
\<close>

definition sorted_board :: "leaderboard \<Rightarrow> leaderboard" where
  "sorted_board leaderboard_data = rev (sort_key board_key (rev leaderboard_data))"







section \<open>Backfill\<close>






section \<open>The score tokens of a text, by position\<close>

text \<open>
  A second description of what the parser should return, after section 4.1 of the
  specification: the positions at which the score-token pattern occurs, and for each the
  text from just after the token to just before the next occurrence, or to the end of the
  text when there is none.
\<close>

definition token_positions :: "string \<Rightarrow> nat list" where
  "token_positions s = filter (\<lambda>p. score_token_at (drop p s)) [0..<length s]"

definition next_boundary :: "string \<Rightarrow> nat \<Rightarrow> nat" where
  "next_boundary s p =
     (case filter (\<lambda>q. p < q) (token_positions s) of [] \<Rightarrow> length s | q # qs \<Rightarrow> q)"

definition text_between :: "string \<Rightarrow> nat \<Rightarrow> string" where
  "text_between s p = take (next_boundary s p - (p + 4)) (drop (p + 4) s)"

definition token_segments :: "string \<Rightarrow> (char \<times> string) list" where
  "token_segments s = map (\<lambda>p. (s ! p, text_between s p)) (token_positions s)"

definition first_token :: "string \<Rightarrow> nat" where
  "first_token s = (case token_positions s of [] \<Rightarrow> length s | q # qs \<Rightarrow> q)"

definition no_final_newline :: "string \<Rightarrow> bool" where
  "no_final_newline s = (s = [] \<or> last s \<noteq> CHR 0x0A)"


section \<open>Reading a leaderboard\<close>

text \<open>
  What a dictionary says about one player, with 0 for a player it does not hold (a new
  record starts from 0); the bound of claim C10 on every record; and a run of ingestions,
  each with its own answers of the user lookup, from a given dictionary.
\<close>

definition games_of :: "leaderboard \<Rightarrow> string \<Rightarrow> int" where
  "games_of d user_id = (case map_of d user_id of None \<Rightarrow> 0 | Some r \<Rightarrow> games_played r)"

definition score_of :: "leaderboard \<Rightarrow> string \<Rightarrow> int" where
  "score_of d user_id = (case map_of d user_id of None \<Rightarrow> 0 | Some r \<Rightarrow> total_score r)"

definition score_bounds :: "leaderboard \<Rightarrow> bool" where
  "score_bounds d =
     list_all (\<lambda>item. 0 \<le> total_score (snd item) \<and> total_score (snd item) \<le> 7 * games_played (snd item)) d"

definition ingest_all :: "((int \<Rightarrow> fetch_outcome) \<times> message) list \<Rightarrow> leaderboard \<Rightarrow> leaderboard" where
  "ingest_all calls d = fold (\<lambda>(fetch_user, msg) d. fst (process_wordle_message fetch_user msg d)) calls d"


section \<open>Properties of the scoring function\<close>

lemma is_digit_cases:
  "is_digit c \<longleftrightarrow> c = CHR ''0'' \<or> c = CHR ''1'' \<or> c = CHR ''2'' \<or> c = CHR ''3'' \<or> c = CHR ''4'' \<or>
     c = CHR ''5'' \<or> c = CHR ''6'' \<or> c = CHR ''7'' \<or> c = CHR ''8'' \<or> c = CHR ''9''"
  by (auto simp: is_digit_def)

lemma py_int_digit:
  assumes "is_digit c"
  shows "py_int [c] = Some (digit_val c)"
proof -
  have a: "\<not> int_space c"
    using assms by (auto simp: is_digit_cases int_space_def)
  have b: "c \<noteq> CHR ''-''" "c \<noteq> CHR ''+''" "c \<noteq> CHR ''_''"
    using assms by (auto simp: is_digit_cases)
  show ?thesis
    using a b assms by (simp add: py_int_def int_of_digits_def)
qed

lemma digit_val_range:
  assumes "is_digit c"
  shows "0 \<le> digit_val c \<and> digit_val c \<le> 9"
  using assms by (auto simp: is_digit_cases digit_val_def)

lemma upper_digit:
  assumes "is_digit c"
  shows "upper_char c = c"
  using assms unfolding is_digit_cases
  by (elim disjE) (simp_all add: upper_char_def)

lemma calculate_score_digit:
  assumes "is_digit c"
  shows "calculate_score [c] = max 0 (7 - digit_val c)"
proof -
  have "c \<noteq> CHR ''X''"
    using assms by (auto simp: is_digit_cases)
  then show ?thesis
    using assms by (simp add: calculate_score_def py_int_digit upper_digit)
qed

text \<open>
  Claim C2, as stated, fails: the token \<^verbatim>\<open>0\<close> is neither the failure marker nor a
  guess count in 1..6, and it scores 7 points, not 0.
\<close>

theorem calculate_score_zero_token_counterexample:
  "calculate_score ''0'' = 7 \<and> calculate_score ''0'' \<noteq> 0"
  by (simp add: calculate_score_def py_int_def upper_char_def int_space_def is_digit_def
      int_of_digits_def digit_val_def)

text \<open>
  Claim C2, amended: the scoring function is total; the failure marker \<^verbatim>\<open>X\<close> or \<^verbatim>\<open>x\<close>
  scores 0; a token that is one decimal digit \<open>g\<close> scores \<open>max 0 (7 - g)\<close>, which is
  \<open>7 - g\<close> for \<open>g\<close> in 1..6 and does not increase when \<open>g\<close> grows; a token that
  \<^verbatim>\<open>int\<close> rejects scores 0.
\<close>

theorem calculate_score_by_token:
  "calculate_score ''X'' = 0 \<and> calculate_score ''x'' = 0 \<and>
   (is_digit c \<longrightarrow> calculate_score [c] = max 0 (7 - digit_val c)) \<and>
   (is_digit c \<and> 1 \<le> digit_val c \<and> digit_val c \<le> 6 \<longrightarrow> calculate_score [c] = 7 - digit_val c) \<and>
   (is_digit c \<and> is_digit d \<and> digit_val c \<le> digit_val d \<longrightarrow>
      calculate_score [d] \<le> calculate_score [c]) \<and>
   (py_int s = None \<longrightarrow> calculate_score s = 0)"
proof -
  have x: "calculate_score ''X'' = 0" "calculate_score ''x'' = 0"
    by (simp_all add: calculate_score_def upper_char_def)
  have none: "py_int s = None \<longrightarrow> calculate_score s = 0"
    by (simp add: calculate_score_def)
  show ?thesis
    using x none by (auto simp: calculate_score_digit)
qed

theorem calculate_score_by_token_witness:
  "is_digit CHR ''2'' \<and> is_digit CHR ''6'' \<and> digit_val CHR ''2'' \<le> digit_val CHR ''6'' \<and>
   py_int ''1x'' = None \<and>
   calculate_score ''2'' = 5 \<and> calculate_score ''6'' = 1 \<and> calculate_score ''1x'' = 0"
proof -
  have h: "is_digit CHR ''2''" "is_digit CHR ''6''" "digit_val CHR ''2'' = 2" "digit_val CHR ''6'' = 6"
    by (simp_all add: is_digit_def digit_val_def)
  have n: "py_int ''1x'' = None"
    by (simp add: py_int_def int_space_def is_digit_def)
  show ?thesis
    using h n calculate_score_by_token [of "CHR ''2''" "CHR ''6''" "''1x''"]
      calculate_score_by_token [of "CHR ''6''" "CHR ''6''" "''1x''"]
    by simp
qed


section \<open>Properties of the parser\<close>

lemma token_positions_Cons:
  "token_positions (c # cs) =
     (if score_token_at (c # cs) then [0] else []) @ map Suc (token_positions cs)"
proof -
  have "[0..<length (c # cs)] = 0 # map Suc [0..<length cs]"
    by (simp add: upt_conv_Cons map_Suc_upt del: upt_Suc)
  then show ?thesis
    by (simp add: token_positions_def filter_map o_def)
qed

lemma token_positions_Nil [simp]: "token_positions [] = []"
  by (simp add: token_positions_def)

lemma space_not_token:
  assumes "is_space c"
  shows "\<not> score_token_at (c # cs)"
proof -
  have "\<not> is_digit c" "c \<noteq> CHR ''X''" "c \<noteq> CHR ''x''"
    using assms by (auto simp: is_space_def is_digit_def)
  then show ?thesis
    by (cases cs rule: score_token_at.cases) (cases "c # cs" rule: score_token_at.cases; simp)+
qed


lemma first_token_Cons:
  "first_token (c # cs) = (if score_token_at (c # cs) then 0 else Suc (first_token cs))"
  by (simp add: first_token_def token_positions_Cons split: list.splits)

lemma first_token_Nil [simp]: "first_token [] = 0"
  by (simp add: first_token_def)

lemma no_final_newline_tl:
  assumes "no_final_newline (c # cs)"
  shows "no_final_newline cs"
  using assms by (auto simp: no_final_newline_def)

lemma lookahead_no_final_newline:
  assumes "no_final_newline (c # cs)"
  shows "lookahead (c # cs) = score_token_at (c # cs)"
  using assms by (auto simp: lookahead_def no_final_newline_def)

lemma lazy_dot_star_take:
  assumes "no_final_newline t"
  shows "lazy_dot_star t = take (first_token t) t"
  using assms
proof (induction t)
  case Nil
  then show ?case by simp
next
  case (Cons c cs)
  then have "lazy_dot_star cs = take (first_token cs) cs"
    by (simp add: no_final_newline_tl)
  with Cons.prems show ?case
    by (simp add: lookahead_no_final_newline first_token_Cons)
qed

lemma dropWhile_take_first_token:
  "dropWhile is_space (take (first_token t) t) =
     take (first_token (dropWhile is_space t)) (dropWhile is_space t)"
proof (induction t)
  case Nil
  then show ?case by simp
next
  case (Cons c cs)
  show ?case
  proof (cases "is_space c")
    case True
    then show ?thesis
      using Cons.IH by (simp add: first_token_Cons space_not_token)
  next
    case False
    then show ?thesis
      by (simp add: first_token_Cons)
  qed
qed

lemma no_final_newline_drop:
  assumes "no_final_newline s"
  shows "no_final_newline (drop n s)"
  using assms by (auto simp: no_final_newline_def)

lemma no_final_newline_dropWhile:
  assumes "no_final_newline s"
  shows "no_final_newline (dropWhile P s)"
proof (cases "dropWhile P s = []")
  case True
  then show ?thesis by (simp add: no_final_newline_def)
next
  case False
  then have "last (takeWhile P s @ dropWhile P s) = last (dropWhile P s)"
    by (rule last_appendR)
  then have "last (dropWhile P s) = last s" by simp
  moreover from False have "s \<noteq> []" by auto
  ultimately show ?thesis
    using assms by (simp add: no_final_newline_def)
qed

subsection \<open>Where the search resumes\<close>

lemma findall_skip_spaces: "findall_score (dropWhile is_space t) = findall_score t"
  by (induction t) (simp_all add: space_not_token)

lemma findall_skip_lazy: "findall_score (drop (length (lazy_dot_star t)) t) = findall_score t"
proof (induction t)
  case Nil
  then show ?case by simp
next
  case (Cons c cs)
  show ?case
  proof (cases "lookahead (c # cs)")
    case True
    then show ?thesis by simp
  next
    case False
    then have "\<not> score_token_at (c # cs)"
      by (simp add: lookahead_def)
    with False Cons.IH show ?thesis by simp
  qed
qed

lemma token_tail_shape:
  assumes "score_token_at (c # cs)"
  shows "\<exists>r. cs = CHR ''/'' # CHR ''6'' # CHR '':'' # r"
  using assms by (cases "c # cs" rule: score_token_at.cases) auto

lemma findall_skip_token:
  assumes "score_token_at (c # cs)"
  shows "findall_score (drop 3 cs) = findall_score cs"
proof -
  from assms obtain r where cs: "cs = CHR ''/'' # CHR ''6'' # CHR '':'' # r"
    using token_tail_shape by blast
  have "\<not> score_token_at (CHR ''/'' # CHR ''6'' # CHR '':'' # r)"
    by (cases r) (simp_all add: is_digit_def)
  moreover have "\<not> score_token_at (CHR ''6'' # CHR '':'' # r)"
    by (cases r rule: score_token_at.cases) (cases r; cases "tl r"; simp)+
  moreover have "\<not> score_token_at (CHR '':'' # r)"
    by (cases "CHR '':'' # r" rule: score_token_at.cases) (simp_all add: is_digit_def)
  ultimately show ?thesis
    by (simp add: cs)
qed

lemma findall_score_Cons:
  "findall_score (c # cs) =
     (if score_token_at (c # cs)
      then [(c, lazy_dot_star (dropWhile is_space (drop 3 cs)))] else []) @ findall_score cs"
proof (cases "score_token_at (c # cs)")
  case True
  have "findall_score (drop (length (lazy_dot_star (dropWhile is_space (drop 3 cs))))
          (dropWhile is_space (drop 3 cs))) = findall_score cs"
    by (simp only: findall_skip_lazy findall_skip_spaces findall_skip_token [OF True])
  with True show ?thesis by (simp add: Let_def)
next
  case False
  then show ?thesis by simp
qed


subsection \<open>The positional description, unfolded along the text\<close>

lemma next_boundary_Suc:
  "next_boundary (c # cs) (Suc p) = Suc (next_boundary cs p)"
  by (simp add: next_boundary_def token_positions_Cons filter_map o_def split: list.splits)

lemma next_boundary_0:
  "next_boundary (c # cs) 0 = Suc (first_token cs)"
proof -
  have "filter (\<lambda>q. 0 < q) (token_positions (c # cs)) = map Suc (token_positions cs)"
    by (simp add: token_positions_Cons filter_map o_def)
  then show ?thesis
    by (simp add: next_boundary_def first_token_def split: list.splits)
qed

lemma text_between_Suc: "text_between (c # cs) (Suc p) = text_between cs p"
proof -
  have d: "drop (Suc p + 4) (c # cs) = drop (p + 4) cs"
    by (simp only: add_Suc drop_Suc_Cons)
  have n: "Suc (next_boundary cs p) - (Suc p + 4) = next_boundary cs p - (p + 4)"
    by simp
  show ?thesis
    unfolding text_between_def next_boundary_Suc d n by (rule refl)
qed

lemma first_token_after_token:
  assumes "score_token_at (c # cs)"
  shows "first_token cs = 3 + first_token (drop 3 cs)"
proof -
  from assms obtain r where cs: "cs = CHR ''/'' # CHR ''6'' # CHR '':'' # r"
    using token_tail_shape by blast
  have "\<not> score_token_at (CHR ''/'' # CHR ''6'' # CHR '':'' # r)"
    by (cases r) (simp_all add: is_digit_def)
  moreover have "\<not> score_token_at (CHR ''6'' # CHR '':'' # r)"
    by (cases r rule: score_token_at.cases) (cases r; cases "tl r"; simp)+
  moreover have "\<not> score_token_at (CHR '':'' # r)"
    by (cases "CHR '':'' # r" rule: score_token_at.cases) (simp_all add: is_digit_def)
  ultimately show ?thesis
    by (simp add: cs first_token_Cons)
qed

lemma text_between_0:
  assumes "score_token_at (c # cs)"
  shows "text_between (c # cs) 0 = take (first_token (drop 3 cs)) (drop 3 cs)"
  by (simp add: text_between_def next_boundary_0 first_token_after_token [OF assms])

lemma token_segments_Cons:
  "token_segments (c # cs) =
     (if score_token_at (c # cs)
      then [(c, take (first_token (drop 3 cs)) (drop 3 cs))] else []) @ token_segments cs"
  by (simp add: token_segments_def token_positions_Cons text_between_Suc text_between_0 o_def)

lemma token_segments_Nil [simp]: "token_segments [] = []"
  by (simp add: token_segments_def)

lemma length_token_segments: "length (token_segments s) = length (token_positions s)"
  by (simp add: token_segments_def)

lemma length_findall_score: "length (findall_score s) = length (token_positions s)"
  by (induction s) (simp_all add: findall_score_Cons token_positions_Cons del: findall_score.simps(2))

lemma findall_score_segments:
  assumes "no_final_newline s"
  shows "findall_score s = map (\<lambda>(c, t). (c, dropWhile is_space t)) (token_segments s)"
  using assms
proof (induction s)
  case Nil
  then show ?case by simp
next
  case (Cons c cs)
  have tl: "findall_score cs = map (\<lambda>(c, t). (c, dropWhile is_space t)) (token_segments cs)"
    using Cons by (simp add: no_final_newline_tl)
  have "no_final_newline (dropWhile is_space (drop 3 cs))"
    using Cons.prems
    by (intro no_final_newline_dropWhile no_final_newline_drop) (rule no_final_newline_tl)
  then have "lazy_dot_star (dropWhile is_space (drop 3 cs)) =
      dropWhile is_space (take (first_token (drop 3 cs)) (drop 3 cs))"
    by (simp add: lazy_dot_star_take dropWhile_take_first_token)
  with tl show ?case
    by (simp add: findall_score_Cons token_segments_Cons del: findall_score.simps(2))
qed

lemma no_final_newline_strip: "no_final_newline (py_strip s)"
proof -
  define t where "t = dropWhile is_space (rev (dropWhile is_space s))"
  have "t \<noteq> [] \<Longrightarrow> \<not> is_space (hd t)"
    unfolding t_def by (rule hd_dropWhile)
  moreover have "t \<noteq> [] \<Longrightarrow> last (rev t) = hd t"
    by (simp add: last_rev)
  moreover have "is_space (CHR 0x0A)"
    by (simp add: is_space_def)
  ultimately have "no_final_newline (rev t)"
    by (auto simp: no_final_newline_def)
  then show ?thesis
    by (simp add: py_strip_def t_def)
qed

lemma find_mentions_dropWhile_space:
  "find_mentions (dropWhile is_space t) = find_mentions t"
proof (induction t)
  case Nil
  then show ?case by simp
next
  case (Cons c cs)
  show ?case
  proof (cases "is_space c")
    case True
    then have "c \<noteq> CHR ''<''"
      by (auto simp: is_space_def)
    then have "mention_at (c # cs) = None"
      by (cases cs) simp_all
    with True Cons.IH show ?thesis by simp
  next
    case False
    then show ?thesis by simp
  qed
qed



lemma findall_score_empty_iff: "findall_score s = [] \<longleftrightarrow> token_positions s = []"
  using length_findall_score [of s] by (metis length_0_conv)

text \<open>
  Claim C3: for every message body, the parser returns exactly one result per occurrence
  of the score-token pattern in the cleaned text, and the mention segment of each result
  is the text between its token and the next token (or the end of the text), without its
  leading whitespace; so the player references of a result are exactly the mentions found
  in that stretch of text, and none of another segment.
\<close>

theorem findall_score_matches_token_segments:
  "length (findall_score (clean_content body)) = length (token_positions (clean_content body)) \<and>
   findall_score (clean_content body) =
     map (\<lambda>(c, t). (c, dropWhile is_space t)) (token_segments (clean_content body)) \<and>
   map (\<lambda>(c, seg). find_mentions seg) (findall_score (clean_content body)) =
     map (\<lambda>(c, t). find_mentions t) (token_segments (clean_content body))"
proof (intro conjI)
  show "length (findall_score (clean_content body)) = length (token_positions (clean_content body))"
    by (rule length_findall_score)
  show seg: "findall_score (clean_content body) =
      map (\<lambda>(c, t). (c, dropWhile is_space t)) (token_segments (clean_content body))"
    by (simp add: clean_content_def findall_score_segments no_final_newline_strip)
  show "map (\<lambda>(c, seg). find_mentions seg) (findall_score (clean_content body)) =
      map (\<lambda>(c, t). find_mentions t) (token_segments (clean_content body))"
    unfolding seg by (simp add: o_def case_prod_beta find_mentions_dropWhile_space)
qed

theorem findall_score_matches_token_segments_witness:
  "length (token_positions (clean_content ''**1/6**: <@!111> 2/6: <@!222> <@!333> '')) = 2 \<and>
   map (\<lambda>(c, t). find_mentions t)
     (token_segments (clean_content ''**1/6**: <@!111> 2/6: <@!222> <@!333> '')) =
     [[''111''], [''222'', ''333'']]"
proof -
  let ?b = "''**1/6**: <@!111> 2/6: <@!222> <@!333> ''"
  have f: "findall_score (clean_content ?b) =
      [(CHR ''1'', ''<@!111> ''), (CHR ''2'', ''<@!222> <@!333>'')]"
    by (simp add: clean_content_def py_strip_def is_space_def is_digit_def lookahead_def)
  have m: "map (\<lambda>(c, seg). find_mentions seg)
      [(CHR ''1'', ''<@!111> ''), (CHR ''2'', ''<@!222> <@!333>'')] = [[''111''], [''222'', ''333'']]"
    by (simp add: is_digit_def)
  from findall_score_matches_token_segments [of ?b]
  have "length (findall_score (clean_content ?b)) = length (token_positions (clean_content ?b))"
    and "map (\<lambda>(c, seg). find_mentions seg) (findall_score (clean_content ?b)) =
      map (\<lambda>(c, t). find_mentions t) (token_segments (clean_content ?b))"
    by blast+
  then have "length (token_positions (clean_content ?b)) = 2"
    and "map (\<lambda>(c, t). find_mentions t) (token_segments (clean_content ?b)) =
      [[''111''], [''222'', ''333'']]"
    unfolding f m by simp_all
  then show ?thesis by (rule conjI)
qed




section \<open>Properties of the ingestion of one message\<close>

text \<open>
  Claim C7: a message whose author is not the configured bot, and a message whose cleaned
  body holds no score-token pattern, is ingested with nothing logged (the result is
  \<open>False\<close>) and the dictionary unchanged.
\<close>

theorem process_wordle_message_nothing_logged:
  assumes "author_id msg \<noteq> WORDLE_BOT_ID \<or> token_positions (clean_content (content msg)) = []"
  shows "process_wordle_message fetch_user msg leaderboard_data = (leaderboard_data, False)"
  using assms by (auto simp: process_wordle_message_def Let_def findall_score_empty_iff)

theorem process_wordle_message_nothing_logged_witness:
  "process_wordle_message (\<lambda>u. NotFound)
     \<lparr>message_id = 1, author_id = 42, content = ''1/6: <@1>''\<rparr> [] = ([], False) \<and>
   process_wordle_message (\<lambda>u. NotFound)
     \<lparr>message_id = 2, author_id = WORDLE_BOT_ID, content = ''no scores today''\<rparr> [] = ([], False)"
proof -
  have a: "author_id \<lparr>message_id = 1, author_id = 42, content = ''1/6: <@1>''\<rparr> \<noteq> WORDLE_BOT_ID"
    by (simp add: WORDLE_BOT_ID_def)
  have "findall_score (clean_content ''no scores today'') = []"
    by (simp add: clean_content_def py_strip_def is_space_def is_digit_def)
  then have b: "token_positions (clean_content
      (content \<lparr>message_id = 2, author_id = WORDLE_BOT_ID, content = ''no scores today''\<rparr>)) = []"
    by (simp add: findall_score_empty_iff)
  show ?thesis
    using process_wordle_message_nothing_logged [OF disjI1, OF a]
      process_wordle_message_nothing_logged [OF disjI2, OF b]
    by simp
qed

lemma log_score_games:
  "games_of (log_score f pts u d) v = games_of d v + (if v = u then 1 else 0)"
  by (simp add: games_of_def log_score_def Let_def update_conv' split: option.splits)

lemma log_score_score:
  "score_of (log_score f pts u d) v = score_of d v + (if v = u then pts else 0)"
  by (simp add: score_of_def log_score_def Let_def update_conv' split: option.splits)

lemma mentions_fold_gain:
  "games_of (fst (fold (\<lambda>user_id (ld, sl). (log_score f pts user_id ld, sl + 1)) us (d, n))) v =
     games_of d v + int (count_list us v) \<and>
   score_of (fst (fold (\<lambda>user_id (ld, sl). (log_score f pts user_id ld, sl + 1)) us (d, n))) v =
     score_of d v + pts * int (count_list us v)"
proof (induction us arbitrary: d n)
  case Nil
  then show ?case by simp
next
  case (Cons u us)
  show ?case
    by (simp add: Cons.IH log_score_games log_score_score algebra_simps)
qed

lemma process_match_gain:
  "\<exists>g s. \<forall>f d n.
     games_of (fst (process_match f m (d, n))) v = games_of d v + g \<and>
     score_of (fst (process_match f m (d, n))) v = score_of d v + s"
  unfolding process_match_def Let_def using mentions_fold_gain by blast

lemma matches_fold_gain:
  "\<exists>g s. \<forall>f d n.
     games_of (fst (fold (process_match f) ms (d, n))) v = games_of d v + g \<and>
     score_of (fst (fold (process_match f) ms (d, n))) v = score_of d v + s"
proof (induction ms)
  case Nil
  show ?case by simp
next
  case (Cons m ms)
  obtain g1 s1 where 1: "\<And>f d n.
      games_of (fst (process_match f m (d, n))) v = games_of d v + g1 \<and>
      score_of (fst (process_match f m (d, n))) v = score_of d v + s1"
    using process_match_gain by blast
  obtain g2 s2 where 2: "\<And>f d n.
      games_of (fst (fold (process_match f) ms (d, n))) v = games_of d v + g2 \<and>
      score_of (fst (fold (process_match f) ms (d, n))) v = score_of d v + s2"
    using Cons.IH by blast
  have "\<forall>f d n.
      games_of (fst (fold (process_match f) (m # ms) (d, n))) v = games_of d v + (g1 + g2) \<and>
      score_of (fst (fold (process_match f) (m # ms) (d, n))) v = score_of d v + (s1 + s2)"
  proof (intro allI)
    fix f d n
    obtain d' n' where p: "process_match f m (d, n) = (d', n')"
      by (cases "process_match f m (d, n)")
    from 1 [of f d n] p have "games_of d' v = games_of d v + g1" "score_of d' v = score_of d v + s1"
      by simp_all
    with 2 [of f d' n'] p
    show "games_of (fst (fold (process_match f) (m # ms) (d, n))) v = games_of d v + (g1 + g2) \<and>
      score_of (fst (fold (process_match f) (m # ms) (d, n))) v = score_of d v + (s1 + s2)"
      by simp
  qed
  then show ?case by blast
qed

lemma process_wordle_message_gain:
  "\<exists>g s. \<forall>f d.
     games_of (fst (process_wordle_message f msg d)) v = games_of d v + g \<and>
     score_of (fst (process_wordle_message f msg d)) v = score_of d v + s"
proof (cases "author_id msg \<noteq> WORDLE_BOT_ID \<or> content msg = [] \<or>
    findall_score (clean_content (content msg)) = []")
  case True
  then have "\<forall>f d. fst (process_wordle_message f msg d) = d"
    by (auto simp: process_wordle_message_def Let_def)
  then have "\<forall>f d. games_of (fst (process_wordle_message f msg d)) v = games_of d v + 0 \<and>
      score_of (fst (process_wordle_message f msg d)) v = score_of d v + 0"
    by simp
  then show ?thesis by blast
next
  case False
  then have "\<forall>f d. fst (process_wordle_message f msg d) =
      fst (fold (process_match f) (findall_score (clean_content (content msg))) (d, 0))"
    by (simp add: process_wordle_message_def Let_def case_prod_beta)
  moreover obtain g s where "\<And>f d n.
      games_of (fst (fold (process_match f) (findall_score (clean_content (content msg))) (d, n))) v =
        games_of d v + g \<and>
      score_of (fst (fold (process_match f) (findall_score (clean_content (content msg))) (d, n))) v =
        score_of d v + s"
    using matches_fold_gain [of "findall_score (clean_content (content msg))" v] by blast
  ultimately have "\<forall>f d.
      games_of (fst (process_wordle_message f msg d)) v = games_of d v + g \<and>
      score_of (fst (process_wordle_message f msg d)) v = score_of d v + s"
    by simp
  then show ?thesis by blast
qed

text \<open>
  Claim C5: for every message, every starting dictionary and every player, ingesting the
  message twice in a row increases \<^verbatim>\<open>games_played\<close> and \<^verbatim>\<open>total_score\<close> by exactly twice the
  increase of a single ingestion (whatever the user lookup answers in either run).
\<close>

theorem ingesting_twice_doubles_the_increase:
  "games_of (fst (process_wordle_message f2 msg (fst (process_wordle_message f1 msg d)))) user_id
     - games_of d user_id =
     2 * (games_of (fst (process_wordle_message f1 msg d)) user_id - games_of d user_id) \<and>
   score_of (fst (process_wordle_message f2 msg (fst (process_wordle_message f1 msg d)))) user_id
     - score_of d user_id =
     2 * (score_of (fst (process_wordle_message f1 msg d)) user_id - score_of d user_id)"
proof -
  obtain g s where "\<And>f d.
      games_of (fst (process_wordle_message f msg d)) user_id = games_of d user_id + g \<and>
      score_of (fst (process_wordle_message f msg d)) user_id = score_of d user_id + s"
    using process_wordle_message_gain by blast
  then show ?thesis by simp
qed

theorem ingesting_twice_doubles_the_increase_witness:
  "games_of (fst (process_wordle_message (\<lambda>u. NotFound)
       \<lparr>message_id = 5, author_id = WORDLE_BOT_ID, content = ''2/6: <@7> <@7> X/6: <@8>''\<rparr>
       (fst (process_wordle_message (\<lambda>u. NotFound)
          \<lparr>message_id = 5, author_id = WORDLE_BOT_ID, content = ''2/6: <@7> <@7> X/6: <@8>''\<rparr>
          []))))
     ''7'' = 4 \<and>
   score_of (fst (process_wordle_message (\<lambda>u. NotFound)
       \<lparr>message_id = 5, author_id = WORDLE_BOT_ID, content = ''2/6: <@7> <@7> X/6: <@8>''\<rparr>
       (fst (process_wordle_message (\<lambda>u. NotFound)
          \<lparr>message_id = 5, author_id = WORDLE_BOT_ID, content = ''2/6: <@7> <@7> X/6: <@8>''\<rparr>
          []))))
     ''7'' = 20"
proof -
  let ?m = "\<lparr>message_id = 5, author_id = WORDLE_BOT_ID, content = ''2/6: <@7> <@7> X/6: <@8>''\<rparr>"
  let ?f = "\<lambda>u::int. NotFound"
  have once: "games_of (fst (process_wordle_message ?f ?m [])) ''7'' = 2"
      "score_of (fst (process_wordle_message ?f ?m [])) ''7'' = 10"
    by code_simp+
  have start: "games_of [] ''7'' = 0" "score_of [] ''7'' = 0"
    by (simp_all add: games_of_def score_of_def)
  show ?thesis
    using ingesting_twice_doubles_the_increase [of ?f ?m ?f "[]" "''7''"]
    unfolding once start by simp
qed

subsection \<open>The bounds on the scores\<close>

lemma py_int_single: "py_int [c] = (if is_digit c then Some (digit_val c) else None)"
proof (cases "is_digit c")
  case True
  then show ?thesis by (simp add: py_int_digit)
next
  case False
  have t: "rev (dropWhile int_space (rev (dropWhile int_space [c]))) =
      (if int_space c then [] else [c])"
    by simp
  show ?thesis
    unfolding py_int_def Let_def t using False
    by (cases "int_space c") simp_all
qed

lemma calculate_score_single_bounds:
  "0 \<le> calculate_score [c] \<and> calculate_score [c] \<le> 7"
proof (cases "is_digit c")
  case True
  with digit_val_range [of c] show ?thesis
    by (simp add: calculate_score_def py_int_single)
next
  case False
  then show ?thesis
    by (simp add: calculate_score_def py_int_single)
qed

lemma list_all_update:
  assumes "list_all P d" and "P (k, v)"
  shows "list_all P (AList.update k v d)"
  using assms by (induction d) auto

lemma log_score_bounds:
  assumes "score_bounds d" and "0 \<le> pts" and "pts \<le> 7"
  shows "score_bounds (log_score f pts u d)"
proof (cases "map_of d u")
  case None
  with assms show ?thesis
    by (simp add: score_bounds_def log_score_def Let_def list_all_update)
next
  case (Some r)
  then have "(u, r) \<in> set d"
    by (rule map_of_SomeD)
  with assms(1) have "0 \<le> total_score r \<and> total_score r \<le> 7 * games_played r"
    by (auto simp: score_bounds_def list_all_iff)
  with assms Some show ?thesis
    by (simp add: score_bounds_def log_score_def Let_def list_all_update)
qed

lemma mentions_fold_bounds:
  assumes "score_bounds d" and "0 \<le> pts" and "pts \<le> 7"
  shows "score_bounds (fst (fold (\<lambda>user_id (ld, sl). (log_score f pts user_id ld, sl + 1)) us (d, n)))"
  using assms(1)
proof (induction us arbitrary: d n)
  case Nil
  then show ?case by simp
next
  case (Cons u us)
  then show ?case
    using assms(2,3) by (simp add: log_score_bounds)
qed

lemma process_match_bounds:
  assumes "score_bounds (fst st)"
  shows "score_bounds (fst (process_match f m st))"
proof -
  obtain d n where st: "st = (d, n)" by (cases st)
  have b: "0 \<le> calculate_score (map upper_char [fst m])"
      "calculate_score (map upper_char [fst m]) \<le> 7"
    using calculate_score_single_bounds [of "upper_char (fst m)"] by simp_all
  show ?thesis
    unfolding process_match_def Let_def st
    by (rule mentions_fold_bounds) (use assms st b in simp_all)
qed

lemma matches_fold_bounds:
  assumes "score_bounds (fst st)"
  shows "score_bounds (fst (fold (process_match f) ms st))"
  using assms by (induction ms arbitrary: st) (simp_all add: process_match_bounds)

lemma process_wordle_message_bounds:
  assumes "score_bounds d"
  shows "score_bounds (fst (process_wordle_message f msg d))"
  using assms matches_fold_bounds [of "(d, 0)" f "findall_score (clean_content (content msg))"]
  by (simp add: process_wordle_message_def Let_def case_prod_beta)

lemma ingest_all_bounds:
  assumes "score_bounds d"
  shows "score_bounds (ingest_all calls d)"
  using assms unfolding ingest_all_def
  by (induction calls arbitrary: d) (simp_all add: case_prod_beta process_wordle_message_bounds)

text \<open>
  Claim C10: every ingestion call preserves \<open>0 \<le> total_score \<le> 7 * games_played\<close> for every
  record, and every dictionary reached from the empty one by ingestions satisfies it.
\<close>

theorem ingestion_keeps_score_bounds:
  "(score_bounds d \<longrightarrow> score_bounds (fst (process_wordle_message fetch_user msg d))) \<and>
   score_bounds (ingest_all calls [])"
proof -
  have "score_bounds []"
    by (simp add: score_bounds_def)
  then show ?thesis
    using process_wordle_message_bounds ingest_all_bounds by blast
qed

theorem ingestion_keeps_score_bounds_witness:
  "score_bounds [(''7'', \<lparr>username = ''a'', total_score = 6, games_played = 1\<rparr>)] \<and>
   fst (process_wordle_message (\<lambda>u. NotFound)
          \<lparr>message_id = 5, author_id = WORDLE_BOT_ID, content = ''0/6: <@7>''\<rparr>
          [(''7'', \<lparr>username = ''a'', total_score = 6, games_played = 1\<rparr>)]) =
     [(''7'', \<lparr>username = ''User 7 (Not Found)'', total_score = 13, games_played = 2\<rparr>)] \<and>
   score_bounds [(''7'', \<lparr>username = ''User 7 (Not Found)'', total_score = 13, games_played = 2\<rparr>)]"
proof -
  let ?d = "[(''7'', \<lparr>username = ''a'', total_score = 6, games_played = 1\<rparr>)]"
  let ?m = "\<lparr>message_id = 5, author_id = WORDLE_BOT_ID, content = ''0/6: <@7>''\<rparr>"
  have h: "score_bounds ?d"
    by (simp add: score_bounds_def)
  have e: "fst (process_wordle_message (\<lambda>u. NotFound) ?m ?d) =
      [(''7'', \<lparr>username = ''User 7 (Not Found)'', total_score = 13, games_played = 2\<rparr>)]"
    by code_simp
  from ingestion_keeps_score_bounds [of ?d "\<lambda>u. NotFound" ?m "[]"] h
  have "score_bounds (fst (process_wordle_message (\<lambda>u. NotFound) ?m ?d))"
    by blast
  then show ?thesis
    using h e by simp
qed

section \<open>Properties of the persistence\<close>



section \<open>Properties of the ranking\<close>

text \<open>
  Claim C1 at a tie: two records with \<^verbatim>\<open>total_score = 6\<close>, one with average guesses 1 and
  one with average guesses 4. The sort puts the record with the higher average first,
  whatever their order in the dictionary is (see \<open>sorted_board_def\<close>: both components of
  the key are reversed).
\<close>

theorem sorted_board_tie_higher_average_first:
  "sorted_board
     [(''1'', \<lparr>username = ''A'', total_score = 6, games_played = 1\<rparr>),
      (''2'', \<lparr>username = ''B'', total_score = 6, games_played = 2\<rparr>)] =
     [(''2'', \<lparr>username = ''B'', total_score = 6, games_played = 2\<rparr>),
      (''1'', \<lparr>username = ''A'', total_score = 6, games_played = 1\<rparr>)] \<and>
   board_key (''1'', \<lparr>username = ''A'', total_score = 6, games_played = 1\<rparr>) = (6, 1) \<and>
   board_key (''2'', \<lparr>username = ''B'', total_score = 6, games_played = 2\<rparr>) = (6, 4)"
  by (simp add: sorted_board_def board_key_def)





section \<open>Properties of the backfill\<close>





end
